theory Spec2Isabelle
  imports Main "HOL-Library.Sublist"
begin

section \<open>Data model\<close>

text \<open>
  The source is \<^verbatim>\<open>src/deep_research_mcp.py\<close>. A Python \<^verbatim>\<open>str\<close> is modelled as a
  \<^typ>\<open>string\<close>, the list of its code points, for text within U+0000..U+00FF (the range
  of \<^typ>\<open>char\<close>). The objects of the cloud SDK are records holding the attributes the
  source reads.
\<close>

text \<open>\<^verbatim>\<open>ann.url_citation\<close>: the attributes \<^verbatim>\<open>url\<close> and \<^verbatim>\<open>title\<close>; the title may be
  \<^verbatim>\<open>None\<close>.\<close>

record url_citation =
  url :: string
  title :: "string option"

text \<open>\<^verbatim>\<open>ThreadMessage\<close>: \<^verbatim>\<open>id\<close>, the values \<^verbatim>\<open>t.text.value\<close> of \<^verbatim>\<open>text_messages\<close> in
  order, and \<^verbatim>\<open>url_citation_annotations\<close> in order.\<close>

record thread_message =
  message_id :: string
  text_messages :: "string list"
  url_citation_annotations :: "url_citation list"

text \<open>\<^verbatim>\<open>ThreadRun\<close>: \<^verbatim>\<open>id\<close>, \<^verbatim>\<open>status\<close> and the text that \<^verbatim>\<open>last_error\<close> formats to.\<close>

record run =
  run_id :: string
  status :: string
  last_error :: string

text \<open>The exceptions the handler can end with: a missing environment variable, the read
  of a local variable that was never assigned, and any exception raised by a call of the
  SDK (the source catches none of them).\<close>

datatype error = KeyError string | UnboundLocalError string | ServiceError string

text \<open>The calls of the SDK, with the arguments the source passes.\<close>

datatype sdk_call =
    ConnectionsGet string
  | CreateAgent string string string string string
  | ThreadsCreate
  | MessagesCreate string string string
  | RunsCreate string string
  | RunsGet string string
  | GetLastMessageByRole string
  | DeleteAgent string

text \<open>Everything the code does besides returning a value, in the order it happens:
  records of the module's logger, notifications sent through the tool context
  (\<^verbatim>\<open>ctx.info\<close>, \<^verbatim>\<open>ctx.error\<close>), \<^verbatim>\<open>asyncio.sleep\<close>, and calls of the SDK.\<close>

datatype event =
    LogInfo string
  | CtxInfo string
  | CtxError string
  | Sleep nat
  | Call sdk_call

text \<open>The tool context. The source only tests it (\<^verbatim>\<open>if ctx:\<close>) and sends through it.\<close>

datatype "context" = Context

text \<open>\<^verbatim>\<open>Literal['brief', 'medium', 'comprehensive']\<close>.\<close>

datatype report_type = Brief | Medium | Comprehensive

fun report_type_str :: "report_type \<Rightarrow> string" where
  "report_type_str Brief = ''brief''"
| "report_type_str Medium = ''medium''"
| "report_type_str Comprehensive = ''comprehensive''"

section \<open>String operations of Python\<close>

text \<open>\<^verbatim>\<open>str.isspace\<close> on one character, for code points below 256.\<close>

definition py_isspace :: "char \<Rightarrow> bool" where
  "py_isspace c =
     (c \<in> set [CHR 0x09, CHR 0x0A, CHR 0x0B, CHR 0x0C, CHR 0x0D, CHR 0x1C, CHR 0x1D,
                CHR 0x1E, CHR 0x1F, CHR 0x20, CHR 0x85, CHR 0xA0])"

text \<open>\<^verbatim>\<open>s.strip()\<close>: whitespace removed from both ends.\<close>

definition strip :: "string \<Rightarrow> string" where
  "strip s = rev (dropWhile py_isspace (rev (dropWhile py_isspace s)))"

text \<open>\<^verbatim>\<open>sep.join(xs)\<close>.\<close>

fun str_join :: "string \<Rightarrow> string list \<Rightarrow> string" where
  "str_join sep [] = []"
| "str_join sep [x] = x"
| "str_join sep (x # y # ys) = x @ sep @ str_join sep (y # ys)"

text \<open>How an f-string prints an optional string: \<^verbatim>\<open>None\<close> prints as \<^verbatim>\<open>None\<close>.\<close>

fun format_opt :: "string option \<Rightarrow> string" where
  "format_opt None = ''None''"
| "format_opt (Some s) = s"

section \<open>The report assembler\<close>

text \<open>\<^verbatim>\<open>title = ann.url_citation.title or url\<close>: \<^verbatim>\<open>None\<close> and the empty string are falsy.\<close>

definition title_or_url :: "url_citation \<Rightarrow> string" where
  "title_or_url ann =
     (case title ann of
        None \<Rightarrow> url ann
      | Some t \<Rightarrow> (if t = [] then url ann else t))"

text \<open>\<^verbatim>\<open>f"- [{title}]({url})\n"\<close>.\<close>

definition reference_line :: "url_citation \<Rightarrow> string" where
  "reference_line ann = ''- ['' @ title_or_url ann @ '']('' @ url ann @ '')\<newline>''"

text \<open>The loop of lines 101--106 over the annotations, with the set \<^verbatim>\<open>seen_urls\<close> and the
  string \<^verbatim>\<open>report_content\<close> it updates.\<close>

fun references_loop :: "url_citation list \<Rightarrow> string set \<Rightarrow> string \<Rightarrow> string" where
  "references_loop [] seen_urls report_content = report_content"
| "references_loop (ann # anns) seen_urls report_content =
     (if url ann \<notin> seen_urls
      then references_loop anns (insert (url ann) seen_urls)
             (report_content @ reference_line ann)
      else references_loop anns seen_urls report_content)"

text \<open>\<^verbatim>\<open>create_research_summary(message, filepath)\<close>, lines 92--109. The message is
  optional: \<^verbatim>\<open>None\<close> is the falsy message of line 93, for which the function logs and returns
  \<^verbatim>\<open>None\<close>. The result is the returned value and the events of the call.\<close>

definition create_research_summary ::
  "thread_message option \<Rightarrow> string \<Rightarrow> string option \<times> event list" where
  "create_research_summary message filepath =
     (case message of
        None \<Rightarrow>
          (None, [LogInfo ''No message content provided, cannot create research summary.''])
      | Some m \<Rightarrow>
          (let body = str_join ''\<newline>\<newline>'' (map strip (text_messages m));
               report_content =
                 (if url_citation_annotations m \<noteq> []
                  then references_loop (url_citation_annotations m) {}
                         (body @ ''\<newline>\<newline>## References\<newline>'')
                  else body)
           in (Some report_content,
               [LogInfo (''Research report content:\<newline>'' @ report_content)])))"

section \<open>Effects and errors\<close>

text \<open>A computation of the handler ends with an exception or a value, and leaves the
  events it produced. \<open>bind_result\<close> is sequencing: an exception skips the rest, as in
  Python, and the events so far are kept.\<close>

type_synonym 'a result = "(error + 'a) \<times> event list"

definition bind_result :: "'a result \<Rightarrow> ('a \<Rightarrow> 'b result) \<Rightarrow> 'b result" where
  "bind_result r f =
     (case r of
        (Inl e, tr) \<Rightarrow> (Inl e, tr)
      | (Inr x, tr) \<Rightarrow> (case f x of (y, tr') \<Rightarrow> (y, tr @ tr')))"

definition emit :: "event list \<Rightarrow> unit result" where
  "emit evs = (Inr (), evs)"

text \<open>A call of the SDK: the call is recorded, and its outcome is the service's.\<close>

definition sdk :: "sdk_call \<Rightarrow> error + 'a \<Rightarrow> 'a result" where
  "sdk c outcome = (outcome, [Call c])"

section \<open>The external service\<close>

text \<open>
  The process environment and the cloud service are not part of the repository. One
  invocation of the handler sees them as the outcomes of its calls, so they are modelled as
  the script of these outcomes: \<open>environ\<close> is \<^verbatim>\<open>os.environ\<close>; each call of the SDK either
  raises (\<open>Inl\<close>) or returns (\<open>Inr\<close>); \<open>runs_get svc k\<close> and
  \<open>get_last_message_by_role svc k\<close> are the outcomes of the \<open>k\<close>-th such call of the
  invocation, counted from 0. Every behaviour of the service is some script.
\<close>

record service =
  environ :: "string \<Rightarrow> string option"
  connections_get :: "string \<Rightarrow> error + string"
  create_agent :: "error + string"
  threads_create :: "error + string"
  messages_create :: "error + string"
  runs_create :: "error + run"
  runs_get :: "nat \<Rightarrow> error + run"
  get_last_message_by_role :: "nat \<Rightarrow> error + thread_message option"
  delete_agent :: "error + unit"

text \<open>\<^verbatim>\<open>os.environ[name]\<close> raises \<^verbatim>\<open>KeyError\<close> for a missing variable.\<close>

definition os_environ :: "service \<Rightarrow> string \<Rightarrow> string result" where
  "os_environ svc name =
     (case environ svc name of None \<Rightarrow> (Inl (KeyError name), []) | Some v \<Rightarrow> (Inr v, []))"

section \<open>Progress of the agent\<close>

text \<open>The events of lines 80--88 for a response that is reported.\<close>

definition agent_response_events :: "thread_message \<Rightarrow> context option \<Rightarrow> event list" where
  "agent_response_events response ctx =
     [LogInfo ''\<newline>Agent response:'',
      LogInfo (str_join ''\<newline>'' (text_messages response))]
     @ (if ctx \<noteq> None
        then [CtxInfo (''\<newline>Agent response:'' @ str_join ''\<newline>'' (text_messages response))]
        else [])
     @ concat (map (\<lambda>ann.
         LogInfo (''URL Citation: ['' @ format_opt (title ann) @ '']('' @ url ann @ '')'')
         # (if ctx \<noteq> None
            then [CtxInfo (''URL Citation: ['' @ format_opt (title ann) @ '']('' @ url ann @ '')'')]
            else []))
       (url_citation_annotations response))"

text \<open>\<^verbatim>\<open>fetch_and_print_new_agent_response\<close>, lines 66--89. The client is represented by
  the outcome of its \<^verbatim>\<open>get_last_message_by_role\<close> call.\<close>

definition fetch_and_print_new_agent_response ::
  "string \<Rightarrow> error + thread_message option \<Rightarrow> string option \<Rightarrow> context option
     \<Rightarrow> string option result" where
  "fetch_and_print_new_agent_response thread_id agents_client last_message_id ctx =
     bind_result (sdk (GetLastMessageByRole thread_id) agents_client) (\<lambda>response.
       case response of
         None \<Rightarrow> (Inr last_message_id, [])
       | Some r \<Rightarrow>
           (if Some (message_id r) = last_message_id then (Inr last_message_id, [])
            else (Inr (Some (message_id r)), agent_response_events r ctx)))"

section \<open>The research handler\<close>

text \<open>\<^verbatim>\<open>report_instructions_template.format(...)\<close>, lines 159--168: the template with its
  three fields filled in. Each line of the template starts with eight spaces.\<close>

definition report_instructions_template_format :: "string \<Rightarrow> string \<Rightarrow> string \<Rightarrow> string" where
  "report_instructions_template_format report_type research_topic language =
     ''\<newline>        Provide a '' @ report_type @ '' report on the topic: '' @ [CHR 0x27]
     @ research_topic @ [CHR 0x27] @ ''.\<newline>        Use the language '' @ language
     @ '' for the report.\<newline>        Do not ask the user for any additional information, just provide the report.\<newline>        ''"

text \<open>Lines 165--173. \<^verbatim>\<open>not other_instructions\<close> holds for \<^verbatim>\<open>None\<close> and for the empty
  string.\<close>

definition report_instructions :: "report_type \<Rightarrow> string \<Rightarrow> string \<Rightarrow> string option \<Rightarrow> string" where
  "report_instructions report_type research_topic language other_instructions =
     (case other_instructions of
        None \<Rightarrow>
          report_instructions_template_format (report_type_str report_type) research_topic language
      | Some oi \<Rightarrow>
          (if oi = []
           then report_instructions_template_format (report_type_str report_type)
                  research_topic language
           else report_instructions_template_format (report_type_str report_type)
                  research_topic language
                @ ''# Other Instructions\<newline>\<newline>'' @ oi @ ''\<newline>\<newline>''))"

text \<open>Lines 123--187: from the start of the handler to the creation of the run. The value
  is the agent's identifier, the thread's identifier and the run.\<close>

definition start_run ::
  "service \<Rightarrow> string \<Rightarrow> context \<Rightarrow> report_type \<Rightarrow> string \<Rightarrow> string option
     \<Rightarrow> (string \<times> string \<times> run) result" where
  "start_run svc research_topic ctx report_type language other_instructions =
     bind_result (os_environ svc ''PROJECT_ENDPOINT'') (\<lambda>endpoint.
     bind_result (os_environ svc ''BING_RESOURCE_NAME'') (\<lambda>bing_name.
     bind_result (sdk (ConnectionsGet bing_name) (connections_get svc bing_name))
       (\<lambda>bing_connection_id.
     bind_result (os_environ svc ''DEEP_RESEARCH_MODEL_DEPLOYMENT_NAME'')
       (\<lambda>deep_research_model.
     bind_result (os_environ svc ''MODEL_DEPLOYMENT_NAME'') (\<lambda>model.
     bind_result
       (sdk (CreateAgent model ''my-agent''
               ''You are a helpful Agent that assists in researching topics that user provides.''
               bing_connection_id deep_research_model)
          (create_agent svc)) (\<lambda>agent_id.
     bind_result (emit [CtxInfo ''Agent created.'',
                        LogInfo (''Created agent, ID: '' @ agent_id)]) (\<lambda>_.
     bind_result (sdk ThreadsCreate (threads_create svc)) (\<lambda>thread_id.
     bind_result (emit [CtxInfo ''Thread created.'',
                        LogInfo (''Created thread, ID: '' @ thread_id)]) (\<lambda>_.
     bind_result
       (sdk (MessagesCreate thread_id ''user''
               (report_instructions report_type research_topic language other_instructions))
          (messages_create svc)) (\<lambda>message_id.
     bind_result (emit
       [LogInfo (''Created message, ID: '' @ message_id),
        CtxInfo ''Starting the research process... this may take a few minutes. Be patient!'',
        LogInfo ''Start processing the message... this may take a few minutes to finish. Be patient!''])
       (\<lambda>_.
     bind_result (sdk (RunsCreate thread_id agent_id) (runs_create svc)) (\<lambda>run.
     (Inr (agent_id, thread_id, run), [])))))))))))))"

text \<open>One iteration of the loop of lines 189--200, the \<open>k\<close>-th one counted from 0: the new
  run and the new \<^verbatim>\<open>last_message_id\<close>.\<close>

definition poll_step ::
  "service \<Rightarrow> context \<Rightarrow> string \<Rightarrow> nat \<Rightarrow> run \<Rightarrow> string option
     \<Rightarrow> (run \<times> string option) result" where
  "poll_step svc ctx thread_id k run last_message_id =
     bind_result (emit [Sleep 10]) (\<lambda>_.
     bind_result (sdk (RunsGet thread_id (run_id run)) (runs_get svc k)) (\<lambda>run'.
     bind_result
       (fetch_and_print_new_agent_response thread_id (get_last_message_by_role svc k)
          last_message_id (Some ctx)) (\<lambda>last_message_id'.
     bind_result (emit [LogInfo (''Run status: '' @ status run'),
                        CtxInfo (''Run status: '' @ status run')]) (\<lambda>_.
     (Inr (run', last_message_id'), [])))))"

text \<open>The loop of line 189. It runs for as long as the service reports an active status,
  so it need not return: \<open>None\<close> is the loop that never ends. \<open>tr\<close> is the events so
  far. On a normal exit the value is the last run, the last reported message identifier and
  the number of iterations made.\<close>

partial_function (option) poll_loop ::
  "service \<Rightarrow> context \<Rightarrow> string \<Rightarrow> nat \<Rightarrow> run \<Rightarrow> string option \<Rightarrow> event list
     \<Rightarrow> (run \<times> string option \<times> nat) result option" where
  "poll_loop svc ctx thread_id k run last_message_id tr =
     (if status run = ''queued'' \<or> status run = ''in_progress''
      then (case poll_step svc ctx thread_id k run last_message_id of
              (Inl e, evs) \<Rightarrow> Some (Inl e, tr @ evs)
            | (Inr (run', last_message_id'), evs) \<Rightarrow>
                poll_loop svc ctx thread_id (Suc k) run' last_message_id' (tr @ evs))
      else Some (Inr (run, last_message_id, k), tr))"

text \<open>The local variable \<^verbatim>\<open>report_content\<close> of the handler: line 214 assigns it only
  when there is a final message, so at line 220 it is unbound (\<open>None\<close>) or bound to what
  \<^verbatim>\<open>create_research_summary\<close> returned.\<close>

type_synonym local_var = "string option option"

text \<open>Line 220: \<^verbatim>\<open>return report_content or "No report content generated."\<close>. Reading an
  unbound local variable raises \<^verbatim>\<open>UnboundLocalError\<close>; \<^verbatim>\<open>None\<close> and the empty string are
  falsy.\<close>

definition return_report :: "local_var \<Rightarrow> string result" where
  "return_report report_content =
     (case report_content of
        None \<Rightarrow> (Inl (UnboundLocalError ''report_content''), [])
      | Some None \<Rightarrow> (Inr ''No report content generated.'', [])
      | Some (Some s) \<Rightarrow>
          (if s = [] then (Inr ''No report content generated.'', []) else (Inr s, [])))"

text \<open>Lines 202--220: after the loop, with the run it ended on and the number \<open>k\<close> of
  polls made before.\<close>

definition finish_run ::
  "service \<Rightarrow> context \<Rightarrow> string \<Rightarrow> string \<Rightarrow> nat \<Rightarrow> run \<Rightarrow> string result" where
  "finish_run svc ctx agent_id thread_id k run =
     bind_result (emit
       [LogInfo (''Run finished with status: '' @ status run @ '', ID: '' @ run_id run),
        CtxInfo (''Run finished with status: '' @ status run)]) (\<lambda>_.
     bind_result (emit
       (if status run = ''failed''
        then [LogInfo (''Run failed: '' @ last_error run),
              CtxError (''Run failed: '' @ last_error run)]
        else [])) (\<lambda>_.
     bind_result (sdk (GetLastMessageByRole thread_id) (get_last_message_by_role svc k))
       (\<lambda>final_message.
     bind_result
       (case final_message of
          None \<Rightarrow> (Inr None, [])
        | Some m \<Rightarrow>
            (case create_research_summary (Some m) ''research_summary.md'' of
               (report_content, evs) \<Rightarrow> (Inr (Some report_content), evs)))
       (\<lambda>report_content.
     bind_result (sdk (DeleteAgent agent_id) (delete_agent svc)) (\<lambda>_.
     bind_result (emit [LogInfo ''Deleted agent'']) (\<lambda>_.
     return_report report_content))))))"

text \<open>\<^verbatim>\<open>retrieve_deep_research_report\<close>, lines 115--220. \<open>None\<close> is the invocation that
  never returns.\<close>

definition retrieve_deep_research_report ::
  "service \<Rightarrow> string \<Rightarrow> context \<Rightarrow> report_type \<Rightarrow> string \<Rightarrow> string option
     \<Rightarrow> string result option" where
  "retrieve_deep_research_report svc research_topic ctx report_type language
       other_instructions =
     (case start_run svc research_topic ctx report_type language other_instructions of
        (Inl e, tr) \<Rightarrow> Some (Inl e, tr)
      | (Inr (agent_id, thread_id, run), tr) \<Rightarrow>
          (case poll_loop svc ctx thread_id 0 run None tr of
             None \<Rightarrow> None
           | Some (Inl e, tr') \<Rightarrow> Some (Inl e, tr')
           | Some (Inr (run', last_message_id, k), tr') \<Rightarrow>
               (case finish_run svc ctx agent_id thread_id k run' of
                  (r, evs) \<Rightarrow> Some (r, tr' @ evs))))"

declare poll_loop.simps [code]

section \<open>Notions used to state the properties\<close>

text \<open>The annotations for which the loop of lines 101--106 writes a line, given the URLs
  seen before.\<close>

fun kept_annotations :: "url_citation list \<Rightarrow> string set \<Rightarrow> url_citation list" where
  "kept_annotations [] seen_urls = []"
| "kept_annotations (ann # anns) seen_urls =
     (if url ann \<notin> seen_urls
      then ann # kept_annotations anns (insert (url ann) seen_urls)
      else kept_annotations anns seen_urls)"




text \<open>Progress output: what is logged or sent to the caller, as opposed to sleeping and
  calling the service.\<close>

fun is_progress :: "event \<Rightarrow> bool" where
  "is_progress (LogInfo s) = True"
| "is_progress (CtxInfo s) = True"
| "is_progress (CtxError s) = True"
| "is_progress (Sleep t) = False"
| "is_progress (Call c) = False"

fun is_sleep :: "event \<Rightarrow> bool" where
  "is_sleep (Sleep t) = True"
| "is_sleep e = False"

text \<open>The terminal notification of line 203.\<close>

fun is_run_finished :: "event \<Rightarrow> bool" where
  "is_run_finished (CtxInfo s) = (take 12 s = ''Run finished'')"
| "is_run_finished e = False"

fun is_messages_create :: "event \<Rightarrow> bool" where
  "is_messages_create (Call (MessagesCreate thread_id role content)) = True"
| "is_messages_create e = False"

section \<open>Example inputs\<close>

definition example_message :: thread_message where
  "example_message =
     \<lparr>message_id = ''msg_2'',
      text_messages = [''  Remote work changes cities. '', ''Commutes shrink.\<newline>'',
                       '' Offices empty.''],
      url_citation_annotations =
        [\<lparr>url = ''https://a.example'', title = Some ''Study A''\<rparr>,
         \<lparr>url = ''https://b.example'', title = None\<rparr>,
         \<lparr>url = ''https://a.example'', title = Some ''Study A again''\<rparr>,
         \<lparr>url = ''https://c.example'', title = Some []\<rparr>,
         \<lparr>url = ''https://b.example'', title = None\<rparr>]\<rparr>"

definition plain_message :: thread_message where
  "plain_message =
     \<lparr>message_id = ''msg_1'',
      text_messages = ['' Partial findings. ''],
      url_citation_annotations = []\<rparr>"

definition example_run :: "string \<Rightarrow> run" where
  "example_run s = \<lparr>run_id = ''run_1'', status = s, last_error = ''None''\<rparr>"

text \<open>A service whose run goes queued, in_progress, completed, and whose agent has
  written \<open>plain_message\<close> by the second poll.\<close>

definition scripted_service :: service where
  "scripted_service =
     \<lparr>environ = (\<lambda>name. Some ''configured''),
      connections_get = (\<lambda>name. Inr ''conn_1''),
      create_agent = Inr ''agent_1'',
      threads_create = Inr ''thread_1'',
      messages_create = Inr ''msg_0'',
      runs_create = Inr (example_run ''queued''),
      runs_get = (\<lambda>k. if k = 0 then Inr (example_run ''in_progress'')
                       else Inr (example_run ''completed'')),
      get_last_message_by_role = (\<lambda>k. if k = 0 then Inr None else Inr (Some plain_message)),
      delete_agent = Inr ()\<rparr>"

text \<open>The same service with a run that fails at the second poll.\<close>

definition failed_run_service :: service where
  "failed_run_service =
     scripted_service
       \<lparr>runs_get := (\<lambda>k. if k = 0 then Inr (example_run ''in_progress'')
                          else Inr \<lparr>run_id = ''run_1'', status = ''failed'',
                                    last_error = ''rate limit exceeded''\<rparr>)\<rparr>"

text \<open>The same service with an agent that never writes a message.\<close>

definition no_message_service :: service where
  "no_message_service = scripted_service \<lparr>get_last_message_by_role := (\<lambda>k. Inr None)\<rparr>"

text \<open>The same service with a deletion of the agent that raises.\<close>

definition delete_fails_service :: service where
  "delete_fails_service =
     scripted_service \<lparr>delete_agent := Inl (ServiceError ''agent cannot be deleted'')\<rparr>"


definition blank_message :: thread_message where
  "blank_message =
     \<lparr>message_id = ''msg_3'',
      text_messages = [''   ''],
      url_citation_annotations = []\<rparr>"

text \<open>The service with the failing run, and a deletion of the agent that raises.\<close>

definition failed_delete_fails_service :: service where
  "failed_delete_fails_service =
     failed_run_service \<lparr>delete_agent := Inl (ServiceError ''agent cannot be deleted'')\<rparr>"

text \<open>The service with the failing run, whose agent has written \<open>blank_message\<close>.\<close>

definition failed_blank_service :: service where
  "failed_blank_service =
     failed_run_service \<lparr>get_last_message_by_role := (\<lambda>k. Inr (Some blank_message))\<rparr>"



section \<open>Properties of the string operations\<close>

lemmas result_defs = bind_result_def emit_def sdk_def

lemma rev_dropWhile_decomposition:
  "xs = rev (dropWhile P (rev xs)) @ rev (takeWhile P (rev xs))"
proof -
  have "rev (rev xs) = rev (takeWhile P (rev xs) @ dropWhile P (rev xs))"
    by (simp only: takeWhile_dropWhile_id)
  then show ?thesis by (simp only: rev_rev_ident rev_append)
qed

lemma strip_decomposition:
  "\<exists>l r. s = l @ strip s @ r \<and> (\<forall>c\<in>set l. py_isspace c) \<and> (\<forall>c\<in>set r. py_isspace c)"
proof (intro exI conjI)
  have "s = takeWhile py_isspace s @ dropWhile py_isspace s"
    by (simp only: takeWhile_dropWhile_id)
  also have "dropWhile py_isspace s
      = strip s @ rev (takeWhile py_isspace (rev (dropWhile py_isspace s)))"
    unfolding strip_def by (rule rev_dropWhile_decomposition)
  finally show "s = takeWhile py_isspace s @ strip s
      @ rev (takeWhile py_isspace (rev (dropWhile py_isspace s)))" .
  show "\<forall>c\<in>set (takeWhile py_isspace s). py_isspace c"
    by (auto dest: set_takeWhileD)
  show "\<forall>c\<in>set (rev (takeWhile py_isspace (rev (dropWhile py_isspace s)))). py_isspace c"
    by (auto dest: set_takeWhileD)
qed

lemma strip_ends:
  assumes "strip s \<noteq> []"
  shows "\<not> py_isspace (hd (strip s)) \<and> \<not> py_isspace (last (strip s))"
proof -
  define d where "d = dropWhile py_isspace s"
  define e where "e = dropWhile py_isspace (rev d)"
  have se: "strip s = rev e" by (simp add: strip_def d_def e_def)
  with assms have ne: "e \<noteq> []" by simp
  then have "\<not> py_isspace (hd e)" unfolding e_def by (rule hd_dropWhile)
  then have a: "\<not> py_isspace (last (strip s))" using ne by (simp add: se last_rev)
  have dne: "d \<noteq> []" using ne by (auto simp: e_def)
  then have hd: "\<not> py_isspace (hd d)" unfolding d_def by (rule hd_dropWhile)
  have "rev d = takeWhile py_isspace (rev d) @ e"
    by (simp add: e_def)
  then have "last (rev d) = last e" using ne by (metis last_appendR)
  then have "hd (strip s) = hd d" using ne dne by (simp add: se hd_rev last_rev)
  with hd a show ?thesis by simp
qed

lemma strip_trimmed:
  "\<exists>l r. t = l @ strip t @ r \<and> (\<forall>c\<in>set l. py_isspace c) \<and> (\<forall>c\<in>set r. py_isspace c)
         \<and> (strip t \<noteq> [] \<longrightarrow> \<not> py_isspace (hd (strip t)) \<and> \<not> py_isspace (last (strip t)))"
  using strip_decomposition [of t] strip_ends [of t] by blast

section \<open>Properties of the report assembler\<close>

lemma references_loop_kept:
  "references_loop anns seen rc = rc @ concat (map reference_line (kept_annotations anns seen))"
  by (induction anns arbitrary: seen rc) auto

lemma kept_subseq: "subseq (kept_annotations anns seen) anns"
  by (induction anns arbitrary: seen) auto

lemma kept_urls: "url ` set (kept_annotations anns seen) = url ` set anns - seen"
  by (induction anns arbitrary: seen) auto

lemma kept_distinct: "distinct (map url (kept_annotations anns seen))"
proof (induction anns arbitrary: seen)
  case Nil
  show ?case by simp
next
  case (Cons a anns)
  have "url a \<notin> url ` set (kept_annotations anns (insert (url a) seen))"
    by (simp add: kept_urls)
  with Cons show ?case by simp
qed

lemma kept_first:
  "a \<in> set (kept_annotations anns seen) \<Longrightarrow>
     find (\<lambda>b. url b = url a \<and> url b \<notin> seen) anns = Some a"
proof (induction anns arbitrary: seen)
  case Nil
  then show ?case by simp
next
  case (Cons x xs)
  show ?case
  proof (cases "url x \<in> seen")
    case True
    with Cons show ?thesis by auto
  next
    case False
    show ?thesis
    proof (cases "a = x")
      case True
      with False show ?thesis by simp
    next
      case ne: False
      with False Cons.prems
      have mem: "a \<in> set (kept_annotations xs (insert (url x) seen))" by simp
      then have "url a \<in> url ` set xs - insert (url x) seen"
        using kept_urls by blast
      then have neq: "url a \<noteq> url x" by blast
      have ih: "find (\<lambda>b. url b = url a \<and> url b \<notin> insert (url x) seen) xs = Some a"
        using Cons.IH [OF mem] .
      have feq: "(\<lambda>b. url b = url a \<and> url b \<notin> insert (url x) seen)
          = (\<lambda>b. url b = url a \<and> url b \<notin> seen)"
        using neq by auto
      have "find (\<lambda>b. url b = url a \<and> url b \<notin> seen) xs = Some a"
        by (rule ih [unfolded feq])
      then show ?thesis using neq by simp
    qed
  qed
qed

lemma kept_indices:
  "\<exists>ixs. kept_annotations anns seen = map (\<lambda>i. anns ! i) ixs \<and> sorted_wrt (<) ixs
        \<and> (\<forall>i\<in>set ixs. i < length anns \<and> url (anns ! i) \<notin> seen
              \<and> (\<forall>j<i. url (anns ! j) \<noteq> url (anns ! i)))"
proof (induction anns arbitrary: seen)
  case Nil
  show ?case by (rule exI [of _ "[]"]) simp
next
  case (Cons a as)
  show ?case
  proof (cases "url a \<in> seen")
    case True
    from Cons.IH [of seen] obtain ixs where
      k: "kept_annotations as seen = map (\<lambda>i. as ! i) ixs" and s: "sorted_wrt (<) ixs"
      and p: "\<forall>i\<in>set ixs. i < length as \<and> url (as ! i) \<notin> seen
                \<and> (\<forall>j<i. url (as ! j) \<noteq> url (as ! i))"
      by blast
    have 1: "kept_annotations (a # as) seen = map (\<lambda>i. (a # as) ! i) (map Suc ixs)"
      using True k by (simp add: comp_def)
    have 2: "sorted_wrt (<) (map Suc ixs)" using s by (simp add: sorted_wrt_map)
    have 3: "\<forall>i\<in>set (map Suc ixs). i < length (a # as) \<and> url ((a # as) ! i) \<notin> seen
                \<and> (\<forall>j<i. url ((a # as) ! j) \<noteq> url ((a # as) ! i))"
    proof
      fix i assume "i \<in> set (map Suc ixs)"
      then obtain i' where i: "i = Suc i'" and m: "i' \<in> set ixs" by auto
      from p m have b1: "i' < length as" and b2: "url (as ! i') \<notin> seen"
        and b3: "\<forall>j<i'. url (as ! j) \<noteq> url (as ! i')" by auto
      have "\<forall>j<Suc i'. url ((a # as) ! j) \<noteq> url (as ! i')"
      proof (intro allI impI)
        fix j assume lt: "j < Suc i'"
        show "url ((a # as) ! j) \<noteq> url (as ! i')"
        proof (cases j)
          case 0
          with True b2 show ?thesis by auto
        next
          case (Suc j')
          with lt b3 show ?thesis by simp
        qed
      qed
      with i b1 b2 show "i < length (a # as) \<and> url ((a # as) ! i) \<notin> seen
                \<and> (\<forall>j<i. url ((a # as) ! j) \<noteq> url ((a # as) ! i))" by simp
    qed
    show ?thesis by (rule exI [of _ "map Suc ixs"]) (intro conjI 1 2 3)
  next
    case False
    from Cons.IH [of "insert (url a) seen"] obtain ixs where
      k: "kept_annotations as (insert (url a) seen) = map (\<lambda>i. as ! i) ixs"
      and s: "sorted_wrt (<) ixs"
      and p: "\<forall>i\<in>set ixs. i < length as \<and> url (as ! i) \<notin> insert (url a) seen
                \<and> (\<forall>j<i. url (as ! j) \<noteq> url (as ! i))"
      by blast
    have 1: "kept_annotations (a # as) seen = map (\<lambda>i. (a # as) ! i) (0 # map Suc ixs)"
      using False k by (simp add: comp_def)
    have 2: "sorted_wrt (<) (0 # map Suc ixs)" using s by (auto simp: sorted_wrt_map)
    have 3: "\<forall>i\<in>set (0 # map Suc ixs). i < length (a # as) \<and> url ((a # as) ! i) \<notin> seen
                \<and> (\<forall>j<i. url ((a # as) ! j) \<noteq> url ((a # as) ! i))"
    proof
      fix i assume "i \<in> set (0 # map Suc ixs)"
      then consider "i = 0" | i' where "i = Suc i'" and "i' \<in> set ixs" by auto
      then show "i < length (a # as) \<and> url ((a # as) ! i) \<notin> seen
                \<and> (\<forall>j<i. url ((a # as) ! j) \<noteq> url ((a # as) ! i))"
      proof cases
        case 1
        with False show ?thesis by simp
      next
        case 2
        from p 2(2) have b1: "i' < length as" and b2: "url (as ! i') \<notin> insert (url a) seen"
          and b3: "\<forall>j<i'. url (as ! j) \<noteq> url (as ! i')" by auto
        have "\<forall>j<Suc i'. url ((a # as) ! j) \<noteq> url (as ! i')"
        proof (intro allI impI)
          fix j assume lt: "j < Suc i'"
          show "url ((a # as) ! j) \<noteq> url (as ! i')"
          proof (cases j)
            case 0
            with b2 show ?thesis by auto
          next
            case (Suc j')
            with lt b3 show ?thesis by simp
          qed
        qed
        with 2(1) b1 b2 show ?thesis by simp
      qed
    qed
    show ?thesis by (rule exI [of _ "0 # map Suc ixs"]) (intro conjI 1 2 3)
  qed
qed

lemma example_body:
  "str_join ''\<newline>\<newline>'' (map strip (text_messages example_message))
     = ''Remote work changes cities.\<newline>\<newline>Commutes shrink.\<newline>\<newline>Offices empty.''"
  by (simp add: example_message_def strip_def py_isspace_def)

text \<open>
  C3. When a message has the citation annotations \<open>anns\<close>, not none, the report is the
  body, the heading \<^verbatim>\<open>## References\<close> and one line \<^verbatim>\<open>- [title](url)\<close> for each
  position of a list \<open>ixs\<close> of positions of \<open>anns\<close>. The positions are strictly
  increasing, each is the first position of its URL, and every URL of \<open>anns\<close> has its
  first position among them: so each distinct URL is listed once, in the order of first
  occurrence, with the title of the first occurrence, or the URL when that title is
  missing or empty.
\<close>

theorem references_unique_first_seen:
  assumes "url_citation_annotations m = anns" and "anns \<noteq> []"
  shows "\<exists>ixs.
      fst (create_research_summary (Some m) filepath) =
        Some (str_join ''\<newline>\<newline>'' (map strip (text_messages m))
              @ ''\<newline>\<newline>## References\<newline>''
              @ concat (map (\<lambda>i. ''- ['' @ (case title (anns ! i) of
                                                None \<Rightarrow> url (anns ! i)
                                              | Some t \<Rightarrow> if t = [] then url (anns ! i) else t)
                                 @ '']('' @ url (anns ! i) @ '')\<newline>'') ixs))
    \<and> sorted_wrt (<) ixs
    \<and> (\<forall>i\<in>set ixs. i < length anns \<and> (\<forall>j<i. url (anns ! j) \<noteq> url (anns ! i)))
    \<and> (\<forall>j<length anns. \<exists>i\<in>set ixs. url (anns ! i) = url (anns ! j))"
proof -
  obtain ixs where
    k: "kept_annotations anns {} = map (\<lambda>i. anns ! i) ixs" and s: "sorted_wrt (<) ixs"
    and p: "\<forall>i\<in>set ixs. i < length anns \<and> url (anns ! i) \<notin> {}
              \<and> (\<forall>j<i. url (anns ! j) \<noteq> url (anns ! i))"
    using kept_indices [of anns "{}"] by blast
  have line: "reference_line = (\<lambda>a. ''- ['' @ (case title a of None \<Rightarrow> url a
                                               | Some t \<Rightarrow> if t = [] then url a else t)
                                 @ '']('' @ url a @ '')\<newline>'')"
    by (rule ext) (simp add: reference_line_def title_or_url_def)
  have 1: "fst (create_research_summary (Some m) filepath) =
        Some (str_join ''\<newline>\<newline>'' (map strip (text_messages m))
              @ ''\<newline>\<newline>## References\<newline>''
              @ concat (map (\<lambda>i. ''- ['' @ (case title (anns ! i) of
                                                None \<Rightarrow> url (anns ! i)
                                              | Some t \<Rightarrow> if t = [] then url (anns ! i) else t)
                                 @ '']('' @ url (anns ! i) @ '')\<newline>'') ixs))"
    using assms
    by (simp add: create_research_summary_def Let_def references_loop_kept k line comp_def)
  have 3: "\<forall>i\<in>set ixs. i < length anns \<and> (\<forall>j<i. url (anns ! j) \<noteq> url (anns ! i))"
    using p by simp
  have 4: "\<forall>j<length anns. \<exists>i\<in>set ixs. url (anns ! i) = url (anns ! j)"
  proof (intro allI impI)
    fix j assume "j < length anns"
    then have "url (anns ! j) \<in> url ` set anns" by simp
    also have "url ` set anns = url ` set (kept_annotations anns {})"
      by (simp add: kept_urls)
    finally have "url (anns ! j) \<in> url ` set (map (\<lambda>i. anns ! i) ixs)"
      by (simp only: k)
    then show "\<exists>i\<in>set ixs. url (anns ! i) = url (anns ! j)" by auto
  qed
  show ?thesis by (rule exI [of _ ixs]) (intro conjI 1 s 3 4)
qed

theorem references_unique_first_seen_witness:
  "url_citation_annotations example_message
     = [\<lparr>url = ''https://a.example'', title = Some ''Study A''\<rparr>,
        \<lparr>url = ''https://b.example'', title = None\<rparr>,
        \<lparr>url = ''https://a.example'', title = Some ''Study A again''\<rparr>,
        \<lparr>url = ''https://c.example'', title = Some []\<rparr>,
        \<lparr>url = ''https://b.example'', title = None\<rparr>]
   \<and> fst (create_research_summary (Some example_message) ''research_summary.md'')
     = Some ''Remote work changes cities.\<newline>\<newline>Commutes shrink.\<newline>\<newline>Offices empty.\<newline>\<newline>## References\<newline>- [Study A](https://a.example)\<newline>- [https://b.example](https://b.example)\<newline>- [https://c.example](https://c.example)\<newline>''"
proof -
  let ?anns = "[\<lparr>url = ''https://a.example'', title = Some ''Study A''\<rparr>,
        \<lparr>url = ''https://b.example'', title = None\<rparr>,
        \<lparr>url = ''https://a.example'', title = Some ''Study A again''\<rparr>,
        \<lparr>url = ''https://c.example'', title = Some []\<rparr>,
        \<lparr>url = ''https://b.example'', title = None\<rparr>]"
  let ?line = "\<lambda>i. ''- ['' @ (case title (?anns ! i) of
                               None \<Rightarrow> url (?anns ! i)
                             | Some t \<Rightarrow> if t = [] then url (?anns ! i) else t)
                   @ '']('' @ url (?anns ! i) @ '')\<newline>''"
  have a: "url_citation_annotations example_message = ?anns"
    by (simp add: example_message_def)
  have ne: "?anns \<noteq> []" by simp
  from references_unique_first_seen [OF a ne, of "''research_summary.md''"]
  obtain ixs where
    r: "fst (create_research_summary (Some example_message) ''research_summary.md'') =
        Some (str_join ''\<newline>\<newline>'' (map strip (text_messages example_message))
              @ ''\<newline>\<newline>## References\<newline>'' @ concat (map ?line ixs))"
    and s: "sorted_wrt (<) ixs"
    and f: "\<forall>i\<in>set ixs. i < length ?anns \<and> (\<forall>j<i. url (?anns ! j) \<noteq> url (?anns ! i))"
    and c: "\<forall>j<length ?anns. \<exists>i\<in>set ixs. url (?anns ! i) = url (?anns ! j)"
    by blast
  have sub: "set ixs \<subseteq> {0, 1, 3}"
  proof
    fix i assume i: "i \<in> set ixs"
    with f have l: "i < 5" and d: "\<forall>j<i. url (?anns ! j) \<noteq> url (?anns ! i)" by auto
    from l consider "i = 0" | "i = 1" | "i = 2" | "i = 3" | "i = 4" by linarith
    then show "i \<in> {0, 1, 3}"
    proof cases
      case 3
      from d [THEN spec, of 0] 3 have "url (?anns ! 0) \<noteq> url (?anns ! 2)" by simp
      then show ?thesis by simp
    next
      case 5
      from d [THEN spec, of 1] 5 have "url (?anns ! 1) \<noteq> url (?anns ! 4)" by simp
      then show ?thesis by simp
    qed simp_all
  qed
  have sup: "{0, 1, 3} \<subseteq> set ixs"
  proof -
    have "\<exists>i\<in>set ixs. url (?anns ! i) = url (?anns ! 0)"
      using c [THEN spec, of 0] by simp
    then have 0: "0 \<in> set ixs" using sub by auto
    have "\<exists>i\<in>set ixs. url (?anns ! i) = url (?anns ! 1)"
      using c [THEN spec, of 1] by simp
    then have 1: "1 \<in> set ixs" using sub by auto
    have "\<exists>i\<in>set ixs. url (?anns ! i) = url (?anns ! 3)"
      using c [THEN spec, of 3] by simp
    then have 3: "3 \<in> set ixs" using sub by auto
    from 0 1 3 show ?thesis by simp
  qed
  from s have "sorted ixs" and "distinct ixs"
    by (simp_all add: strict_sorted_iff)
  moreover have "sorted [0, 1, 3::nat]" and "distinct [0, 1, 3::nat]" by simp_all
  moreover have "set ixs = set [0, 1, 3::nat]" using sub sup by auto
  ultimately have "ixs = [0, 1, 3]" by (rule sorted_distinct_set_unique)
  with r a show ?thesis by (simp add: example_body)
qed

lemma str_join_concat:
  "str_join sep xs = (case xs of [] \<Rightarrow> [] | t # ts \<Rightarrow> t @ concat (map (\<lambda>u. sep @ u) ts))"
  by (induction sep xs rule: str_join.induct) simp_all

lemma str_join_map:
  "str_join sep (map f xs)
     = (case xs of [] \<Rightarrow> [] | t # ts \<Rightarrow> f t @ concat (map (\<lambda>u. sep @ f u) ts))"
  by (cases xs) (simp_all add: str_join_concat comp_def)

lemma example_segments:
  "(case text_messages example_message of
      [] \<Rightarrow> []
    | t # ts \<Rightarrow> strip t @ concat (map (\<lambda>u. ''\<newline>\<newline>'' @ strip u) ts))
     = ''Remote work changes cities.\<newline>\<newline>Commutes shrink.\<newline>\<newline>Offices empty.''"
  by (simp add: example_message_def strip_def py_isspace_def)

text \<open>
  C4. The report starts with the body: the first text segment stripped, then each further
  segment in order, stripped and preceded by a blank line; for no segment the body is
  empty. What follows the body is empty or starts with the heading of the references.
  Stripping a segment removes whitespace only, and leaves no whitespace at either end.
\<close>

theorem report_body_trimmed_joined:
  "\<exists>refs.
     fst (create_research_summary (Some m) filepath)
       = Some ((case text_messages m of
                  [] \<Rightarrow> []
                | t # ts \<Rightarrow> strip t @ concat (map (\<lambda>u. ''\<newline>\<newline>'' @ strip u) ts))
               @ refs)
   \<and> (if url_citation_annotations m = [] then refs = []
       else take 16 refs = ''\<newline>\<newline>## References\<newline>'')
   \<and> (\<forall>t\<in>set (text_messages m).
         \<exists>l r. t = l @ strip t @ r \<and> (\<forall>c\<in>set l. py_isspace c) \<and> (\<forall>c\<in>set r. py_isspace c)
           \<and> (strip t \<noteq> [] \<longrightarrow>
                \<not> py_isspace (hd (strip t)) \<and> \<not> py_isspace (last (strip t))))"
proof -
  let ?body = "case text_messages m of
                  [] \<Rightarrow> []
                | t # ts \<Rightarrow> strip t @ concat (map (\<lambda>u. ''\<newline>\<newline>'' @ strip u) ts)"
  let ?refs = "if url_citation_annotations m = [] then []
               else ''\<newline>\<newline>## References\<newline>''
                    @ concat (map reference_line
                        (kept_annotations (url_citation_annotations m) {}))"
  have b: "str_join ''\<newline>\<newline>'' (map strip (text_messages m)) = ?body"
    by (rule str_join_map)
  have 1: "fst (create_research_summary (Some m) filepath) = Some (?body @ ?refs)"
    unfolding b [symmetric]
    by (simp add: create_research_summary_def Let_def references_loop_kept)
  have 2: "if url_citation_annotations m = [] then ?refs = []
           else take 16 ?refs = ''\<newline>\<newline>## References\<newline>''"
    by simp
  have 3: "\<forall>t\<in>set (text_messages m).
         \<exists>l r. t = l @ strip t @ r \<and> (\<forall>c\<in>set l. py_isspace c) \<and> (\<forall>c\<in>set r. py_isspace c)
           \<and> (strip t \<noteq> [] \<longrightarrow>
                \<not> py_isspace (hd (strip t)) \<and> \<not> py_isspace (last (strip t)))"
    using strip_trimmed by blast
  show ?thesis by (rule exI [of _ ?refs]) (intro conjI 1 2 3)
qed

theorem report_body_trimmed_joined_witness:
  "''  Remote work changes cities. '' \<in> set (text_messages example_message)
   \<and> strip ''  Remote work changes cities. '' = ''Remote work changes cities.''
   \<and> \<not> py_isspace (hd (strip ''  Remote work changes cities. ''))
   \<and> url_citation_annotations example_message \<noteq> []
   \<and> (\<exists>refs. fst (create_research_summary (Some example_message) ''research_summary.md'')
               = Some (''Remote work changes cities.\<newline>\<newline>Commutes shrink.\<newline>\<newline>Offices empty.'' @ refs)
             \<and> take 16 refs = ''\<newline>\<newline>## References\<newline>'')"
proof -
  define t where "t = ''  Remote work changes cities. ''"
  define m where "m = example_message"
  define b where "b = ''Remote work changes cities.\<newline>\<newline>Commutes shrink.\<newline>\<newline>Offices empty.''"
  define h where "h = ''\<newline>\<newline>## References\<newline>''"
  have mem: "t \<in> set (text_messages m)"
    by (simp add: t_def m_def example_message_def)
  have st: "strip t = ''Remote work changes cities.''"
    by (simp add: t_def strip_def py_isspace_def)
  then have sne: "strip t \<noteq> []" by simp
  have ne: "url_citation_annotations m \<noteq> []"
    by (simp add: m_def example_message_def)
  have body: "(case text_messages m of
      [] \<Rightarrow> []
    | t # ts \<Rightarrow> strip t @ concat (map (\<lambda>u. ''\<newline>\<newline>'' @ strip u) ts)) = b"
    unfolding m_def b_def by (rule example_segments)
  from report_body_trimmed_joined [of m "''research_summary.md''", unfolded body, folded h_def]
  obtain refs where
    k: "fst (create_research_summary (Some m) ''research_summary.md'') = Some (b @ refs)
      \<and> (if url_citation_annotations m = [] then refs = [] else take 16 refs = h)
      \<and> (\<forall>t\<in>set (text_messages m).
         \<exists>l r. t = l @ strip t @ r \<and> (\<forall>c\<in>set l. py_isspace c) \<and> (\<forall>c\<in>set r. py_isspace c)
           \<and> (strip t \<noteq> [] \<longrightarrow>
                \<not> py_isspace (hd (strip t)) \<and> \<not> py_isspace (last (strip t))))" ..
  from k mem sne have 1: "\<not> py_isspace (hd (strip t))" by blast
  from k ne have 2: "take 16 refs = h" by simp
  from k have 3: "fst (create_research_summary (Some m) ''research_summary.md'') = Some (b @ refs)"
    by (rule conjunct1)
  from 2 3 have "\<exists>refs. fst (create_research_summary (Some m) ''research_summary.md'')
               = Some (b @ refs) \<and> take 16 refs = h" by blast
  with mem st 1 ne show ?thesis
    unfolding t_def m_def b_def h_def by (intro conjI)
qed

text \<open>
  C8. For a message without citation annotations the report is the joined body alone:
  nothing is appended, so there is no references section.
\<close>

theorem no_annotations_no_references:
  assumes "url_citation_annotations m = []"
  shows "fst (create_research_summary (Some m) filepath)
           = Some (str_join ''\<newline>\<newline>'' (map strip (text_messages m)))"
  using assms by (simp add: create_research_summary_def Let_def)

theorem no_annotations_no_references_witness:
  "url_citation_annotations plain_message = [] \<and>
   fst (create_research_summary (Some plain_message) ''research_summary.md'')
     = Some ''Partial findings.''"
proof -
  have e: "url_citation_annotations plain_message = []"
    by (simp add: plain_message_def)
  have b: "str_join ''\<newline>\<newline>'' (map strip (text_messages plain_message)) = ''Partial findings.''"
    by (simp add: plain_message_def strip_def py_isspace_def)
  show ?thesis
    using e no_annotations_no_references [OF e, of "''research_summary.md''"]
    unfolding b by (rule conjI)
qed

text \<open>
  C10. The value and the events of \<^verbatim>\<open>create_research_summary\<close> are the same for any two
  file paths, and its only event is one record of the logger: the function writes no file.
  Being a function of the message, it gives the same string each time it runs on it.
\<close>

theorem filepath_has_no_effect:
  "create_research_summary message filepath1 = create_research_summary message filepath2
   \<and> (\<exists>s. snd (create_research_summary message filepath1) = [LogInfo s])"
  by (cases message) (simp_all add: create_research_summary_def Let_def)

section \<open>Properties of the polls\<close>

lemma agent_response_events_progress:
  "\<forall>e\<in>set (agent_response_events r ctx). is_progress e"
  by (auto simp: agent_response_events_def)

lemma fetch_absent:
  "fetch_and_print_new_agent_response thread_id (Inr None) lid ctx
     = (Inr lid, [Call (GetLastMessageByRole thread_id)])"
  by (simp add: fetch_and_print_new_agent_response_def result_defs)

lemma fetch_same:
  "fetch_and_print_new_agent_response thread_id (Inr (Some r)) (Some (message_id r)) ctx
     = (Inr (Some (message_id r)), [Call (GetLastMessageByRole thread_id)])"
  by (simp add: fetch_and_print_new_agent_response_def result_defs)

lemma fetch_new:
  "lid \<noteq> Some (message_id r) \<Longrightarrow>
   fetch_and_print_new_agent_response thread_id (Inr (Some r)) lid ctx
     = (Inr (Some (message_id r)),
        Call (GetLastMessageByRole thread_id) # agent_response_events r ctx)"
  by (auto simp: fetch_and_print_new_agent_response_def result_defs)

lemma fetch_raises:
  "fetch_and_print_new_agent_response thread_id (Inl e) lid ctx
     = (Inl e, [Call (GetLastMessageByRole thread_id)])"
  by (simp add: fetch_and_print_new_agent_response_def result_defs)

lemma fetch_events:
  "\<exists>evs. snd (fetch_and_print_new_agent_response thread_id c lid ctx)
           = Call (GetLastMessageByRole thread_id) # evs
         \<and> (\<forall>e\<in>set evs. is_progress e)"
proof (cases c)
  case (Inl e)
  then show ?thesis by (simp add: fetch_raises)
next
  case (Inr response)
  show ?thesis
  proof (cases response)
    case None
    with Inr show ?thesis by (simp add: fetch_absent)
  next
    case (Some r)
    show ?thesis
    proof (cases "lid = Some (message_id r)")
      case True
      with Inr Some show ?thesis by (simp add: fetch_same)
    next
      case False
      with Inr Some show ?thesis
        by (simp add: fetch_new agent_response_events_progress)
    qed
  qed
qed

section \<open>Properties of the polling loop\<close>

lemma poll_step_ok:
  assumes "runs_get svc k = Inr r" and "get_last_message_by_role svc k = Inr m"
  shows "\<exists>lid' evs. poll_step svc ctx thread_id k run lid = (Inr (r, lid'), evs)"
  using assms
  by (auto simp: poll_step_def fetch_and_print_new_agent_response_def result_defs
      split: option.split)

lemma poll_step_shape:
  "\<exists>rest. snd (poll_step svc ctx thread_id k run lid)
            = Sleep 10 # Call (RunsGet thread_id (run_id run)) # rest
          \<and> (\<forall>e\<in>set rest. is_progress e \<or> e = Call (GetLastMessageByRole thread_id))"
proof (cases "runs_get svc k")
  case (Inl e)
  then show ?thesis by (simp add: poll_step_def result_defs)
next
  case (Inr r)
  obtain evs where
    f: "snd (fetch_and_print_new_agent_response thread_id (get_last_message_by_role svc k)
               lid (Some ctx)) = Call (GetLastMessageByRole thread_id) # evs"
    and p: "\<forall>e\<in>set evs. is_progress e"
    using fetch_events by blast
  obtain y where
    fy: "fetch_and_print_new_agent_response thread_id (get_last_message_by_role svc k)
               lid (Some ctx) = (y, Call (GetLastMessageByRole thread_id) # evs)"
    using f by (metis prod.collapse)
  show ?thesis using Inr fy p
    by (cases y) (auto simp: poll_step_def result_defs)
qed

lemma poll_step_sleeps:
  "\<exists>rest. snd (poll_step svc ctx thread_id k run lid)
            = Sleep 10 # Call (RunsGet thread_id (run_id run)) # rest
          \<and> (\<forall>e\<in>set rest. \<not> is_sleep e)"
proof -
  obtain rest where
    s: "snd (poll_step svc ctx thread_id k run lid)
          = Sleep 10 # Call (RunsGet thread_id (run_id run)) # rest"
    and p: "\<forall>e\<in>set rest. is_progress e \<or> e = Call (GetLastMessageByRole thread_id)"
    using poll_step_shape by blast
  have "\<forall>e\<in>set rest. \<not> is_sleep e"
  proof
    fix e assume "e \<in> set rest"
    with p have "is_progress e \<or> e = Call (GetLastMessageByRole thread_id)" by blast
    then show "\<not> is_sleep e" by (cases e) auto
  qed
  with s show ?thesis by blast
qed

lemma poll_loop_exit:
  assumes "poll_loop svc ctx thread_id k run lid tr = Some res"
  shows "\<exists>evs. snd res = tr @ evs \<and>
           (case fst res of
              Inl e \<Rightarrow> True
            | Inr (run', lid', k') \<Rightarrow>
                k \<le> k' \<and> status run' \<noteq> ''queued'' \<and> status run' \<noteq> ''in_progress''
                \<and> filter is_sleep evs = replicate (k' - k) (Sleep 10))"
  using assms
proof (induction rule: poll_loop.raw_induct [rotated, consumes 1, case_names step])
  case (step f svc ctx thread_id k run lid tr res)
  show ?case
  proof (cases "status run = ''queued'' \<or> status run = ''in_progress''")
    case False
    with step.hyps have "res = (Inr (run, lid, k), tr)" by auto
    with False show ?thesis by simp
  next
    case True
    obtain y evs where st: "poll_step svc ctx thread_id k run lid = (y, evs)"
      by (cases "poll_step svc ctx thread_id k run lid") blast
    obtain rest where evs: "evs = Sleep 10 # Call (RunsGet thread_id (run_id run)) # rest"
      and ns: "\<forall>e\<in>set rest. \<not> is_sleep e"
      using poll_step_sleeps [of svc ctx thread_id k run lid] st by auto
    show ?thesis
    proof (cases y)
      case (Inl e)
      with True st step.hyps have "res = (Inl e, tr @ evs)" by auto
      then show ?thesis by simp
    next
      case (Inr v)
      obtain run' lid' where v: "v = (run', lid')" by (cases v) blast
      from True st Inr v step.hyps
      have "f svc ctx thread_id (Suc k) run' lid' (tr @ evs) = Some res" by auto
      from step.IH [OF this] obtain evs' where
        s: "snd res = (tr @ evs) @ evs'" and
        c: "(case fst res of
              Inl e \<Rightarrow> True
            | Inr (run'', lid'', k') \<Rightarrow>
                Suc k \<le> k' \<and> status run'' \<noteq> ''queued'' \<and> status run'' \<noteq> ''in_progress''
                \<and> filter is_sleep evs' = replicate (k' - Suc k) (Sleep 10))"
        by blast
      have fs: "filter is_sleep evs = [Sleep 10]"
        using evs ns by (simp add: filter_empty_conv)
      show ?thesis
      proof (cases "fst res")
        case (Inl e)
        with s show ?thesis by simp
      next
        case (Inr w)
        obtain run'' lid'' k' where w: "w = (run'', lid'', k')" by (cases w) blast
        from c Inr w have k: "Suc k \<le> k'" and
          a: "status run'' \<noteq> ''queued'' \<and> status run'' \<noteq> ''in_progress''" and
          f: "filter is_sleep evs' = replicate (k' - Suc k) (Sleep 10)" by auto
        have "filter is_sleep (evs @ evs') = replicate (k' - k) (Sleep 10)"
          using fs f k by (simp add: Suc_diff_le flip: replicate_Suc)
        with s k a Inr w show ?thesis by simp
      qed
    qed
  qed
qed

lemma poll_loop_returns:
  assumes rg: "runs_get svc = (\<lambda>k. Inr (rs k))"
      and gm: "get_last_message_by_role svc = (\<lambda>k. Inr (ms k))"
      and st: "status (rs (k + n)) \<noteq> ''queued'' \<and> status (rs (k + n)) \<noteq> ''in_progress''"
  shows "\<exists>res. poll_loop svc ctx thread_id k run lid tr = Some res"
  using st
proof (induction n arbitrary: k run lid tr)
  case 0
  obtain lid' evs where
    ps: "poll_step svc ctx thread_id k run lid = (Inr (rs k, lid'), evs)"
    using poll_step_ok [of svc k "rs k" "ms k" ctx thread_id run lid] rg gm by auto
  have "\<exists>res. poll_loop svc ctx thread_id (Suc k) (rs k) lid' (tr @ evs) = Some res"
    using 0 by (subst poll_loop.simps) simp
  then show ?case using ps by (subst poll_loop.simps) simp
next
  case (Suc n)
  obtain lid' evs where
    ps: "poll_step svc ctx thread_id k run lid = (Inr (rs k, lid'), evs)"
    using poll_step_ok [of svc k "rs k" "ms k" ctx thread_id run lid] rg gm by auto
  have "\<exists>res. poll_loop svc ctx thread_id (Suc k) (rs k) lid' (tr @ evs) = Some res"
    using Suc.IH [of "Suc k"] Suc.prems by simp
  then show ?case using ps by (subst poll_loop.simps) simp
qed

lemma poll_loop_returns_only_if:
  assumes "poll_loop svc ctx thread_id k run lid tr = Some res"
      and "runs_get svc = (\<lambda>k. Inr (rs k))"
      and "get_last_message_by_role svc = (\<lambda>k. Inr (ms k))"
  shows "(status run \<noteq> ''queued'' \<and> status run \<noteq> ''in_progress'') \<or>
         (\<exists>n. status (rs (k + n)) \<noteq> ''queued'' \<and> status (rs (k + n)) \<noteq> ''in_progress'')"
  using assms
proof (induction rule: poll_loop.raw_induct [rotated, consumes 1, case_names step])
  case (step f svc ctx thread_id k run lid tr res)
  show ?case
  proof (cases "status run = ''queued'' \<or> status run = ''in_progress''")
    case False
    then show ?thesis by simp
  next
    case True
    obtain lid' evs where
      ps: "poll_step svc ctx thread_id k run lid = (Inr (rs k, lid'), evs)"
      using poll_step_ok [of svc k "rs k" "ms k" ctx thread_id run lid] step.prems by auto
    with True step.hyps
    have "f svc ctx thread_id (Suc k) (rs k) lid' (tr @ evs) = Some res" by auto
    from step.IH [OF this step.prems]
    have "(status (rs k) \<noteq> ''queued'' \<and> status (rs k) \<noteq> ''in_progress'') \<or>
         (\<exists>n. status (rs (Suc k + n)) \<noteq> ''queued'' \<and> status (rs (Suc k + n)) \<noteq> ''in_progress'')" .
    then show ?thesis
    proof
      assume "status (rs k) \<noteq> ''queued'' \<and> status (rs k) \<noteq> ''in_progress''"
      then have "status (rs (k + 0)) \<noteq> ''queued'' \<and> status (rs (k + 0)) \<noteq> ''in_progress''"
        by simp
      then show ?thesis by blast
    next
      assume "\<exists>n. status (rs (Suc k + n)) \<noteq> ''queued'' \<and> status (rs (Suc k + n)) \<noteq> ''in_progress''"
      then obtain n where
        "status (rs (k + Suc n)) \<noteq> ''queued'' \<and> status (rs (k + Suc n)) \<noteq> ''in_progress''"
        by auto
      then show ?thesis by blast
    qed
  qed
qed

lemma scripted_run:
  "map_option (\<lambda>(r, tr). (r, length (filter is_run_finished tr), filter is_sleep tr))
     (retrieve_deep_research_report scripted_service ''remote work'' Context Brief ''en'' None)
   = Some (Inr ''Partial findings.'', 1, [Sleep 10, Sleep 10])"
  by code_simp

text \<open>
  C5. For a service whose polling calls return, the loop returns if and only if the status
  of the run it starts with, or of a run a later poll delivers, is neither queued nor
  in_progress. When it returns normally the run it ends on has such a status, and the loop
  has slept 10 once for each iteration made. Each iteration starts with the sleep of 10,
  followed by the call that fetches the run again, and sleeps no more. For the service
  scripted queued, in_progress, completed the handler returns, having slept twice and sent
  one notification that the run finished.
\<close>

theorem polling_loop_terminates:
  "(runs_get svc = (\<lambda>k. Inr (rs k)) \<and> get_last_message_by_role svc = (\<lambda>k. Inr (ms k))
      \<longrightarrow> ((\<exists>res. poll_loop svc ctx thread_id 0 run0 None tr = Some res)
            \<longleftrightarrow> (status run0 \<noteq> ''queued'' \<and> status run0 \<noteq> ''in_progress'')
                \<or> (\<exists>n. status (rs n) \<noteq> ''queued'' \<and> status (rs n) \<noteq> ''in_progress'')))
   \<and> (poll_loop svc ctx thread_id 0 run0 None tr = Some (Inr (run', lid', k'), tr')
      \<longrightarrow> status run' \<noteq> ''queued'' \<and> status run' \<noteq> ''in_progress''
          \<and> (\<exists>evs. tr' = tr @ evs \<and> filter is_sleep evs = replicate k' (Sleep 10)))
   \<and> (\<exists>rest. snd (poll_step svc ctx thread_id k run lid)
                = Sleep 10 # Call (RunsGet thread_id (run_id run)) # rest
              \<and> (\<forall>e\<in>set rest. \<not> is_sleep e))
   \<and> map_option (\<lambda>(r, tr). (r, length (filter is_run_finished tr), filter is_sleep tr))
        (retrieve_deep_research_report scripted_service ''remote work'' Context Brief
           ''en'' None)
      = Some (Inr ''Partial findings.'', 1, [Sleep 10, Sleep 10])"
proof -
  have p1: "runs_get svc = (\<lambda>k. Inr (rs k)) \<and> get_last_message_by_role svc = (\<lambda>k. Inr (ms k))
      \<longrightarrow> ((\<exists>res. poll_loop svc ctx thread_id 0 run0 None tr = Some res)
            \<longleftrightarrow> (status run0 \<noteq> ''queued'' \<and> status run0 \<noteq> ''in_progress'')
                \<or> (\<exists>n. status (rs n) \<noteq> ''queued'' \<and> status (rs n) \<noteq> ''in_progress''))"
  proof (rule impI, rule iffI)
    assume a: "runs_get svc = (\<lambda>k. Inr (rs k))
                 \<and> get_last_message_by_role svc = (\<lambda>k. Inr (ms k))"
    assume "\<exists>res. poll_loop svc ctx thread_id 0 run0 None tr = Some res"
    then obtain res where "poll_loop svc ctx thread_id 0 run0 None tr = Some res" ..
    from poll_loop_returns_only_if [OF this] a
    show "(status run0 \<noteq> ''queued'' \<and> status run0 \<noteq> ''in_progress'')
                \<or> (\<exists>n. status (rs n) \<noteq> ''queued'' \<and> status (rs n) \<noteq> ''in_progress'')"
      by simp
  next
    assume a: "runs_get svc = (\<lambda>k. Inr (rs k))
                 \<and> get_last_message_by_role svc = (\<lambda>k. Inr (ms k))"
    assume "(status run0 \<noteq> ''queued'' \<and> status run0 \<noteq> ''in_progress'')
                \<or> (\<exists>n. status (rs n) \<noteq> ''queued'' \<and> status (rs n) \<noteq> ''in_progress'')"
    then show "\<exists>res. poll_loop svc ctx thread_id 0 run0 None tr = Some res"
    proof
      assume "status run0 \<noteq> ''queued'' \<and> status run0 \<noteq> ''in_progress''"
      then show ?thesis by (subst poll_loop.simps) simp
    next
      assume "\<exists>n. status (rs n) \<noteq> ''queued'' \<and> status (rs n) \<noteq> ''in_progress''"
      then obtain n where
        n: "status (rs (0 + n)) \<noteq> ''queued'' \<and> status (rs (0 + n)) \<noteq> ''in_progress''"
        by auto
      from a have rg: "runs_get svc = (\<lambda>k. Inr (rs k))"
        and gm: "get_last_message_by_role svc = (\<lambda>k. Inr (ms k))" by simp_all
      show ?thesis by (rule poll_loop_returns [OF rg gm n])
    qed
  qed
  have p2: "poll_loop svc ctx thread_id 0 run0 None tr = Some (Inr (run', lid', k'), tr')
      \<longrightarrow> status run' \<noteq> ''queued'' \<and> status run' \<noteq> ''in_progress''
          \<and> (\<exists>evs. tr' = tr @ evs \<and> filter is_sleep evs = replicate k' (Sleep 10))"
  proof
    assume "poll_loop svc ctx thread_id 0 run0 None tr = Some (Inr (run', lid', k'), tr')"
    from poll_loop_exit [OF this]
    show "status run' \<noteq> ''queued'' \<and> status run' \<noteq> ''in_progress''
          \<and> (\<exists>evs. tr' = tr @ evs \<and> filter is_sleep evs = replicate k' (Sleep 10))"
      by auto
  qed
  have p3: "\<exists>rest. snd (poll_step svc ctx thread_id k run lid)
                = Sleep 10 # Call (RunsGet thread_id (run_id run)) # rest
              \<and> (\<forall>e\<in>set rest. \<not> is_sleep e)"
    by (rule poll_step_sleeps)
  show ?thesis
    by (rule conjI, rule p1, rule conjI, rule p2, rule conjI, rule p3, rule scripted_run)
qed

theorem polling_loop_terminates_witness:
  "runs_get scripted_service
     = (\<lambda>k. Inr (if k = 0 then example_run ''in_progress'' else example_run ''completed''))
   \<and> get_last_message_by_role scripted_service
     = (\<lambda>k. Inr (if k = 0 then None else Some plain_message))
   \<and> status (example_run ''completed'') \<noteq> ''queued''
   \<and> status (example_run ''completed'') \<noteq> ''in_progress''
   \<and> (\<exists>res. poll_loop scripted_service Context ''thread_1'' 0 (example_run ''queued'') None []
              = Some res)"
proof -
  let ?rs = "\<lambda>k::nat. if k = 0 then example_run ''in_progress'' else example_run ''completed''"
  let ?ms = "\<lambda>k::nat. if k = 0 then None else Some plain_message"
  have rg: "runs_get scripted_service = (\<lambda>k. Inr (?rs k))"
    by (rule ext) (simp add: scripted_service_def)
  have gm: "get_last_message_by_role scripted_service = (\<lambda>k. Inr (?ms k))"
    by (rule ext) (simp add: scripted_service_def)
  have st: "status (example_run ''completed'') \<noteq> ''queued''
     \<and> status (example_run ''completed'') \<noteq> ''in_progress''"
    by (simp add: example_run_def)
  then have ex: "\<exists>n. status (?rs n) \<noteq> ''queued'' \<and> status (?rs n) \<noteq> ''in_progress''"
    by (intro exI [of _ 1]) simp
  from polling_loop_terminates
    [of scripted_service ?rs ?ms Context "''thread_1''" "example_run ''queued''" "[]",
     THEN conjunct1, THEN mp, OF conjI [OF rg gm]] ex
  have "\<exists>res. poll_loop scripted_service Context ''thread_1'' 0 (example_run ''queued'') None []
              = Some res"
    by blast
  with rg gm st show ?thesis by (intro conjI) auto
qed

section \<open>Properties of the research handler\<close>

lemma handler_after_loop:
  assumes "start_run svc research_topic ctx report_type language other_instructions
             = (Inr (agent_id, thread_id, run0), tr0)"
      and "poll_loop svc ctx thread_id 0 run0 None tr0 = Some (Inr (run, lid, k), tr1)"
  shows "retrieve_deep_research_report svc research_topic ctx report_type language
           other_instructions
         = Some (fst (finish_run svc ctx agent_id thread_id k run),
                 tr1 @ snd (finish_run svc ctx agent_id thread_id k run))"
  using assms by (simp add: retrieve_deep_research_report_def split: prod.split)

lemma two_polls:
  assumes "status run0 = ''queued''"
      and "runs_get svc 0 = Inr r1" and "status r1 = ''in_progress''"
      and "runs_get svc (Suc 0) = Inr r2"
      and "status r2 \<noteq> ''queued''" and "status r2 \<noteq> ''in_progress''"
      and "get_last_message_by_role svc 0 = Inr m0"
      and "get_last_message_by_role svc (Suc 0) = Inr m1"
  shows "\<exists>lid tr1. poll_loop svc ctx thread_id 0 run0 None tr
                     = Some (Inr (r2, lid, Suc (Suc 0)), tr1)"
proof -
  obtain l1 e1 where 1: "poll_step svc ctx thread_id 0 run0 None = (Inr (r1, l1), e1)"
    using poll_step_ok [OF assms(2) assms(7)] by blast
  obtain l2 e2 where 2: "poll_step svc ctx thread_id (Suc 0) r1 l1 = (Inr (r2, l2), e2)"
    using poll_step_ok [OF assms(4) assms(8)] by blast
  have "poll_loop svc ctx thread_id (Suc (Suc 0)) r2 l2 ((tr @ e1) @ e2)
          = Some (Inr (r2, l2, Suc (Suc 0)), (tr @ e1) @ e2)"
    using assms(5,6) by (subst poll_loop.simps) simp
  then have "poll_loop svc ctx thread_id (Suc 0) r1 l1 (tr @ e1)
          = Some (Inr (r2, l2, Suc (Suc 0)), (tr @ e1) @ e2)"
    using assms(3) 2 by (subst poll_loop.simps) simp
  then have "poll_loop svc ctx thread_id 0 run0 None tr
          = Some (Inr (r2, l2, Suc (Suc 0)), (tr @ e1) @ e2)"
    using assms(1) 1 by (subst poll_loop.simps) simp
  then show ?thesis by blast
qed

text \<open>
  C1. The invocation on a service whose run completes and whose agent never writes a
  message does not return the fallback string: it ends with the exception
  \<^verbatim>\<open>UnboundLocalError\<close>, because line 214 is the only assignment of \<^verbatim>\<open>report_content\<close>
  and is skipped when there is no final message.
\<close>

theorem no_agent_message_raises:
  "map_option fst
     (retrieve_deep_research_report no_message_service ''remote work'' Context Brief
        ''en'' None)
   = Some (Inl (UnboundLocalError ''report_content''))"
  by code_simp

text \<open>
  C2, as the code has it. When the invocation reaches the end of the loop on a run whose
  status is failed, the final agent message exists and the deletion of the agent returns,
  the handler returns the assembled report of that message, or the fallback string when
  that report is empty, and has sent the last error of the run to the caller as an error
  notification.
\<close>

theorem failed_run_returns_report:
  assumes "start_run svc research_topic ctx report_type language other_instructions
             = (Inr (agent_id, thread_id, run0), tr0)"
      and "poll_loop svc ctx thread_id 0 run0 None tr0 = Some (Inr (run, lid, k), tr1)"
      and "status run = ''failed''"
      and "get_last_message_by_role svc k = Inr (Some m)"
      and "fst (create_research_summary (Some m) ''research_summary.md'') = Some report"
      and "delete_agent svc = Inr ()"
  shows "\<exists>tr. retrieve_deep_research_report svc research_topic ctx report_type language
                other_instructions
              = Some (Inr (if report = [] then ''No report content generated.'' else report),
                      tr)
            \<and> CtxError (''Run failed: '' @ last_error run) \<in> set tr"
proof -
  obtain evs where
    c: "create_research_summary (Some m) ''research_summary.md'' = (Some report, evs)"
    using assms(5) by (metis prod.collapse)
  have f: "fst (finish_run svc ctx agent_id thread_id k run)
             = Inr (if report = [] then ''No report content generated.'' else report)"
    using assms(3,4,6) c
    by (simp add: finish_run_def result_defs return_report_def)
  have e: "CtxError (''Run failed: '' @ last_error run)
             \<in> set (snd (finish_run svc ctx agent_id thread_id k run))"
    using assms(3,4,6) c
    by (simp add: finish_run_def result_defs return_report_def)
  show ?thesis
    using handler_after_loop [OF assms(1,2)] f e by simp
qed

theorem failed_run_returns_report_witness:
  "(\<exists>tr0 lid tr1.
      start_run failed_run_service ''remote work'' Context Brief ''en'' None
        = (Inr (''agent_1'', ''thread_1'', example_run ''queued''), tr0)
    \<and> poll_loop failed_run_service Context ''thread_1'' 0 (example_run ''queued'') None tr0
        = Some (Inr (\<lparr>run_id = ''run_1'', status = ''failed'',
                       last_error = ''rate limit exceeded''\<rparr>, lid, Suc (Suc 0)), tr1))
   \<and> get_last_message_by_role failed_run_service (Suc (Suc 0)) = Inr (Some plain_message)
   \<and> fst (create_research_summary (Some plain_message) ''research_summary.md'')
       = Some ''Partial findings.''
   \<and> delete_agent failed_run_service = Inr ()
   \<and> (\<exists>tr. retrieve_deep_research_report failed_run_service ''remote work'' Context Brief
              ''en'' None = Some (Inr ''Partial findings.'', tr)
          \<and> CtxError ''Run failed: rate limit exceeded'' \<in> set tr)"
proof -
  let ?run = "\<lparr>run_id = ''run_1'', status = ''failed'', last_error = ''rate limit exceeded''\<rparr>"
  have "fst (start_run failed_run_service ''remote work'' Context Brief ''en'' None)
     = Inr (''agent_1'', ''thread_1'', example_run ''queued'')"
    by (simp add: start_run_def result_defs os_environ_def scripted_service_def
        failed_run_service_def split: prod.split)
  then obtain tr0 where
    s: "start_run failed_run_service ''remote work'' Context Brief ''en'' None
        = (Inr (''agent_1'', ''thread_1'', example_run ''queued''), tr0)"
    by (metis prod.collapse)
  obtain lid tr1 where
    l: "poll_loop failed_run_service Context ''thread_1'' 0 (example_run ''queued'') None tr0
        = Some (Inr (?run, lid, Suc (Suc 0)), tr1)"
    using two_polls [of "example_run ''queued''" failed_run_service
        "example_run ''in_progress''" ?run None "Some plain_message" Context "''thread_1''" tr0]
    by (auto simp: failed_run_service_def scripted_service_def example_run_def)
  have st: "status ?run = ''failed''" by simp
  have g: "get_last_message_by_role failed_run_service (Suc (Suc 0)) = Inr (Some plain_message)"
    by (simp add: failed_run_service_def scripted_service_def)
  have c: "fst (create_research_summary (Some plain_message) ''research_summary.md'')
       = Some ''Partial findings.''"
    by (simp add: create_research_summary_def Let_def plain_message_def strip_def
        py_isspace_def)
  have d: "delete_agent failed_run_service = Inr ()"
    by (simp add: failed_run_service_def scripted_service_def)
  from failed_run_returns_report [OF s l st g c d]
  have "\<exists>tr. retrieve_deep_research_report failed_run_service ''remote work'' Context Brief
              ''en'' None = Some (Inr ''Partial findings.'', tr)
          \<and> CtxError ''Run failed: rate limit exceeded'' \<in> set tr"
    by simp
  with s l g c d show ?thesis by blast
qed

text \<open>
  The statement of the specification, that a failed run with a non-empty last agent
  message always returns the report of that message, fails in two ways: when the deletion
  of the agent raises, the handler ends with that exception; and when the text of the
  message is only whitespace, its report is empty and the handler returns the fallback
  string.
\<close>

theorem failed_run_counterexample:
  "map_option fst
     (retrieve_deep_research_report failed_delete_fails_service ''remote work'' Context
        Brief ''en'' None)
   = Some (Inl (ServiceError ''agent cannot be deleted''))
   \<and> map_option fst
     (retrieve_deep_research_report failed_blank_service ''remote work'' Context Brief
        ''en'' None)
   = Some (Inr ''No report content generated.'')"
  by code_simp

text \<open>
  C7, as the code has it. When the invocation reaches the deletion of the agent and the
  deletion raises, the handler ends with that exception instead of returning the report;
  the call is its last event, so nothing is logged after it.
\<close>

theorem delete_failure_propagates:
  assumes "start_run svc research_topic ctx report_type language other_instructions
             = (Inr (agent_id, thread_id, run0), tr0)"
      and "poll_loop svc ctx thread_id 0 run0 None tr0 = Some (Inr (run, lid, k), tr1)"
      and "get_last_message_by_role svc k = Inr final_message"
      and "delete_agent svc = Inl e"
  shows "\<exists>evs. retrieve_deep_research_report svc research_topic ctx report_type language
                 other_instructions = Some (Inl e, evs @ [Call (DeleteAgent agent_id)])"
proof -
  have "\<exists>evs. finish_run svc ctx agent_id thread_id k run
                = (Inl e, evs @ [Call (DeleteAgent agent_id)])"
  proof (cases final_message)
    case None
    then show ?thesis using assms(3,4)
      by (simp add: finish_run_def result_defs)
  next
    case (Some m)
    obtain r evs where
      c: "create_research_summary (Some m) ''research_summary.md'' = (r, evs)"
      by (cases "create_research_summary (Some m) ''research_summary.md''") blast
    show ?thesis using Some c assms(3,4)
      by (simp add: finish_run_def result_defs)
  qed
  then obtain evs where
    f: "finish_run svc ctx agent_id thread_id k run
          = (Inl e, evs @ [Call (DeleteAgent agent_id)])" ..
  have "retrieve_deep_research_report svc research_topic ctx report_type language
          other_instructions = Some (Inl e, (tr1 @ evs) @ [Call (DeleteAgent agent_id)])"
    using handler_after_loop [OF assms(1,2)] f by simp
  then show ?thesis ..
qed

theorem delete_failure_propagates_witness:
  "(\<exists>tr0 lid tr1.
      start_run delete_fails_service ''remote work'' Context Brief ''en'' None
        = (Inr (''agent_1'', ''thread_1'', example_run ''queued''), tr0)
    \<and> poll_loop delete_fails_service Context ''thread_1'' 0 (example_run ''queued'') None tr0
        = Some (Inr (example_run ''completed'', lid, Suc (Suc 0)), tr1))
   \<and> get_last_message_by_role delete_fails_service (Suc (Suc 0)) = Inr (Some plain_message)
   \<and> delete_agent delete_fails_service = Inl (ServiceError ''agent cannot be deleted'')
   \<and> (\<exists>evs. retrieve_deep_research_report delete_fails_service ''remote work'' Context Brief
               ''en'' None
             = Some (Inl (ServiceError ''agent cannot be deleted''),
                     evs @ [Call (DeleteAgent ''agent_1'')]))"
proof -
  have "fst (start_run delete_fails_service ''remote work'' Context Brief ''en'' None)
     = Inr (''agent_1'', ''thread_1'', example_run ''queued'')"
    by (simp add: start_run_def result_defs os_environ_def scripted_service_def
        delete_fails_service_def split: prod.split)
  then obtain tr0 where
    s: "start_run delete_fails_service ''remote work'' Context Brief ''en'' None
        = (Inr (''agent_1'', ''thread_1'', example_run ''queued''), tr0)"
    by (metis prod.collapse)
  obtain lid tr1 where
    l: "poll_loop delete_fails_service Context ''thread_1'' 0 (example_run ''queued'') None tr0
        = Some (Inr (example_run ''completed'', lid, Suc (Suc 0)), tr1)"
    using two_polls [of "example_run ''queued''" delete_fails_service
        "example_run ''in_progress''" "example_run ''completed''" None "Some plain_message"
        Context "''thread_1''" tr0]
    by (auto simp: delete_fails_service_def scripted_service_def example_run_def)
  have g: "get_last_message_by_role delete_fails_service (Suc (Suc 0))
             = Inr (Some plain_message)"
    by (simp add: delete_fails_service_def scripted_service_def)
  have d: "delete_agent delete_fails_service = Inl (ServiceError ''agent cannot be deleted'')"
    by (simp add: delete_fails_service_def scripted_service_def)
  from delete_failure_propagates [OF s l g d] s l g d show ?thesis by blast
qed

text \<open>
  The statement of the specification, that a failure of the deletion is logged and the
  report still returned, fails on the service whose deletion raises: the handler ends with
  the exception of the deletion.
\<close>

theorem delete_failure_counterexample:
  "map_option fst
     (retrieve_deep_research_report delete_fails_service ''remote work'' Context Brief
        ''en'' None)
   = Some (Inl (ServiceError ''agent cannot be deleted''))
   \<and> map_option fst
     (retrieve_deep_research_report delete_fails_service ''remote work'' Context Brief
        ''en'' None)
   \<noteq> Some (Inr ''Partial findings.'')"
  by code_simp

section \<open>The instruction message\<close>

lemma bind_result_Inr:
  assumes "bind_result r f = (Inr y, tr)"
  obtains x t1 t2 where "r = (Inr x, t1)" and "f x = (Inr y, t2)" and "tr = t1 @ t2"
  using assms
  by (cases r; cases "fst r")
     (auto simp: bind_result_def split: prod.splits)

lemma os_environ_events: "os_environ svc name = (v, tr) \<Longrightarrow> tr = []"
  by (auto simp: os_environ_def split: option.splits)

lemma start_run_posts:
  assumes "start_run svc research_topic ctx report_type language other_instructions
             = (Inr (agent_id, thread_id, run0), tr0)"
  shows "filter is_messages_create tr0
           = [Call (MessagesCreate thread_id ''user''
                (report_instructions report_type research_topic language other_instructions))]"
  using assms unfolding start_run_def
  by (elim bind_result_Inr)
     (auto simp: emit_def sdk_def dest!: os_environ_events)

lemma poll_step_no_post:
  "filter is_messages_create (snd (poll_step svc ctx thread_id k run lid)) = []"
proof -
  obtain rest where
    s: "snd (poll_step svc ctx thread_id k run lid)
          = Sleep 10 # Call (RunsGet thread_id (run_id run)) # rest"
    and p: "\<forall>e\<in>set rest. is_progress e \<or> e = Call (GetLastMessageByRole thread_id)"
    using poll_step_shape by blast
  have "\<forall>e\<in>set rest. \<not> is_messages_create e"
  proof
    fix e assume "e \<in> set rest"
    with p have "is_progress e \<or> e = Call (GetLastMessageByRole thread_id)" by blast
    then show "\<not> is_messages_create e" by (cases e) auto
  qed
  with s show ?thesis by (simp add: filter_empty_conv)
qed

lemma poll_loop_no_post:
  assumes "poll_loop svc ctx thread_id k run lid tr = Some res"
  shows "filter is_messages_create (snd res) = filter is_messages_create tr"
  using assms
proof (induction rule: poll_loop.raw_induct [rotated, consumes 1, case_names step])
  case (step f svc ctx thread_id k run lid tr res)
  show ?case
  proof (cases "status run = ''queued'' \<or> status run = ''in_progress''")
    case False
    with step.hyps have "res = (Inr (run, lid, k), tr)" by auto
    then show ?thesis by simp
  next
    case True
    obtain y evs where st: "poll_step svc ctx thread_id k run lid = (y, evs)"
      by (cases "poll_step svc ctx thread_id k run lid") blast
    have np: "filter is_messages_create evs = []"
      using poll_step_no_post [of svc ctx thread_id k run lid] st by simp
    show ?thesis
    proof (cases y)
      case (Inl e)
      with True st step.hyps have "res = (Inl e, tr @ evs)" by auto
      with np show ?thesis by simp
    next
      case (Inr v)
      obtain run' lid' where v: "v = (run', lid')" by (cases v) blast
      from True st Inr v step.hyps
      have "f svc ctx thread_id (Suc k) run' lid' (tr @ evs) = Some res" by auto
      from step.IH [OF this] np show ?thesis by simp
    qed
  qed
qed

lemma create_research_summary_events:
  "\<exists>s. snd (create_research_summary message filepath) = [LogInfo s]"
  by (cases message) (simp_all add: create_research_summary_def Let_def)

lemma return_report_events: "snd (return_report report_content) = []"
  by (simp add: return_report_def split: option.split)

lemma finish_run_no_post:
  "filter is_messages_create (snd (finish_run svc ctx agent_id thread_id k run)) = []"
proof -
  obtain s where
    c: "\<And>m. \<exists>s. snd (create_research_summary (Some m) ''research_summary.md'') = [LogInfo s]"
    using create_research_summary_events by blast
  have r: "\<And>rc. \<exists>y. return_report rc = (y, [])"
    using return_report_events by (metis prod.collapse)
  show ?thesis
  proof (cases "get_last_message_by_role svc k")
    case (Inl e)
    then show ?thesis by (simp add: finish_run_def result_defs)
  next
    case (Inr final_message)
    obtain y where y: "return_report
        (case final_message of None \<Rightarrow> None
         | Some m \<Rightarrow> Some (fst (create_research_summary (Some m) ''research_summary.md'')))
        = (y, [])"
      using r by blast
    show ?thesis
    proof (cases final_message)
      case None
      with Inr y show ?thesis
        by (cases "delete_agent svc") (simp_all add: finish_run_def result_defs)
    next
      case (Some m)
      obtain rc s where
        cm: "create_research_summary (Some m) ''research_summary.md'' = (rc, [LogInfo s])"
        using c [of m] by (metis prod.collapse)
      obtain y' where y': "return_report (Some rc) = (y', [])" using r by blast
      from Inr Some cm y' show ?thesis
        by (cases "delete_agent svc") (simp_all add: finish_run_def result_defs)
    qed
  qed
qed

lemma handler_posts_once:
  assumes s: "start_run svc research_topic ctx report_type language other_instructions
             = (Inr (agent_id, thread_id, run0), tr0)"
      and r: "retrieve_deep_research_report svc research_topic ctx report_type language
             other_instructions = Some (res, tr)"
  shows "filter is_messages_create tr = filter is_messages_create tr0"
proof (cases "poll_loop svc ctx thread_id 0 run0 None tr0")
  case None
  with s r show ?thesis by (simp add: retrieve_deep_research_report_def)
next
  case (Some lres)
  note np = poll_loop_no_post [OF Some]
  obtain y tr1 where l: "lres = (y, tr1)" by (cases lres) blast
  show ?thesis
  proof (cases y)
    case (Inl e)
    with s r Some l have "tr = tr1" by (simp add: retrieve_deep_research_report_def)
    with np l show ?thesis by simp
  next
    case (Inr v)
    obtain run lid k where v: "v = (run, lid, k)" by (cases v) blast
    from s r Some l Inr v
    have "tr = tr1 @ snd (finish_run svc ctx agent_id thread_id k run)"
      by (auto simp: retrieve_deep_research_report_def split: prod.splits)
    with np l finish_run_no_post show ?thesis by simp
  qed
qed

lemma report_instructions_text:
  "report_instructions report_type research_topic language other_instructions
     = ''\<newline>        Provide a '' @ report_type_str report_type
       @ '' report on the topic: '' @ [CHR 0x27] @ research_topic @ [CHR 0x27]
       @ ''.\<newline>        Use the language '' @ language
       @ '' for the report.\<newline>        Do not ask the user for any additional information, just provide the report.\<newline>        ''
       @ (case other_instructions of
            None \<Rightarrow> []
          | Some oi \<Rightarrow>
              if oi = [] then [] else ''# Other Instructions\<newline>\<newline>'' @ oi @ ''\<newline>\<newline>'')"
  by (simp add: report_instructions_def report_instructions_template_format_def
      split: option.split)

text \<open>
  C9, as the code has it. An invocation that gets as far as creating the run, and returns,
  posts exactly one message to the thread, with role user. Its content is the template
  with report_type, research_topic and language filled in, followed by the block headed
  \<^verbatim>\<open># Other Instructions\<close> when other_instructions is a non-empty string, and by nothing
  when other_instructions is absent or empty.
\<close>

theorem instruction_message:
  assumes "start_run svc research_topic ctx report_type language other_instructions
             = (Inr (agent_id, thread_id, run0), tr0)"
      and "retrieve_deep_research_report svc research_topic ctx report_type language
             other_instructions = Some (res, tr)"
  shows "filter is_messages_create tr
     = [Call (MessagesCreate thread_id ''user''
         (''\<newline>        Provide a '' @ report_type_str report_type
          @ '' report on the topic: '' @ [CHR 0x27] @ research_topic @ [CHR 0x27]
          @ ''.\<newline>        Use the language '' @ language
          @ '' for the report.\<newline>        Do not ask the user for any additional information, just provide the report.\<newline>        ''
          @ (case other_instructions of
               None \<Rightarrow> []
             | Some oi \<Rightarrow>
                 if oi = [] then []
                 else ''# Other Instructions\<newline>\<newline>'' @ oi @ ''\<newline>\<newline>'')))]"
  using handler_posts_once [OF assms] start_run_posts [OF assms(1)]
  by (simp only: report_instructions_text)

theorem instruction_message_witness:
  "(\<exists>tr0. start_run scripted_service ''remote work'' Context Brief ''en''
             (Some ''Cite sources.'')
           = (Inr (''agent_1'', ''thread_1'', example_run ''queued''), tr0))
   \<and> (\<exists>res tr. retrieve_deep_research_report scripted_service ''remote work'' Context Brief
                 ''en'' (Some ''Cite sources.'') = Some (res, tr)
        \<and> filter is_messages_create tr
          = [Call (MessagesCreate ''thread_1'' ''user''
               (''\<newline>        Provide a brief report on the topic: '' @ [CHR 0x27]
                @ ''remote work'' @ [CHR 0x27]
                @ ''.\<newline>        Use the language en for the report.\<newline>        Do not ask the user for any additional information, just provide the report.\<newline>        # Other Instructions\<newline>\<newline>Cite sources.\<newline>\<newline>''))])"
proof -
  have "fst (start_run scripted_service ''remote work'' Context Brief ''en''
               (Some ''Cite sources.''))
     = Inr (''agent_1'', ''thread_1'', example_run ''queued'')"
    by (simp add: start_run_def result_defs os_environ_def scripted_service_def
        split: prod.split)
  then obtain tr0 where
    s: "start_run scripted_service ''remote work'' Context Brief ''en''
          (Some ''Cite sources.'')
        = (Inr (''agent_1'', ''thread_1'', example_run ''queued''), tr0)"
    by (metis prod.collapse)
  obtain lid tr1 where
    l: "poll_loop scripted_service Context ''thread_1'' 0 (example_run ''queued'') None tr0
        = Some (Inr (example_run ''completed'', lid, Suc (Suc 0)), tr1)"
    using two_polls [of "example_run ''queued''" scripted_service
        "example_run ''in_progress''" "example_run ''completed''" None "Some plain_message"
        Context "''thread_1''" tr0]
    by (auto simp: scripted_service_def example_run_def)
  obtain res tr where
    r: "retrieve_deep_research_report scripted_service ''remote work'' Context Brief
          ''en'' (Some ''Cite sources.'') = Some (res, tr)"
    using handler_after_loop [OF s l] by blast
  have "filter is_messages_create tr
          = [Call (MessagesCreate ''thread_1'' ''user''
               (''\<newline>        Provide a brief report on the topic: '' @ [CHR 0x27]
                @ ''remote work'' @ [CHR 0x27]
                @ ''.\<newline>        Use the language en for the report.\<newline>        Do not ask the user for any additional information, just provide the report.\<newline>        # Other Instructions\<newline>\<newline>Cite sources.\<newline>\<newline>''))]"
    using instruction_message [OF s r] by simp
  with s r show ?thesis by blast
qed

text \<open>
  The statement of the specification, that the block is appended whenever
  other_instructions is present, fails for the empty string: line 169 tests
  \<^verbatim>\<open>not other_instructions\<close>, so the message is the template alone.
\<close>

theorem empty_other_instructions_counterexample:
  "report_instructions Brief ''remote work'' ''en'' (Some [])
     = report_instructions_template_format ''brief'' ''remote work'' ''en''
   \<and> report_instructions Brief ''remote work'' ''en'' (Some [])
     \<noteq> report_instructions_template_format ''brief'' ''remote work'' ''en''
         @ ''# Other Instructions\<newline>\<newline>'' @ [] @ ''\<newline>\<newline>''
   \<and> filter is_messages_create
       (snd (start_run scripted_service ''remote work'' Context Brief ''en'' (Some [])))
     = [Call (MessagesCreate ''thread_1'' ''user''
          (report_instructions_template_format ''brief'' ''remote work'' ''en''))]"
proof -
  have 1: "report_instructions Brief ''remote work'' ''en'' (Some [])
     = report_instructions_template_format ''brief'' ''remote work'' ''en''"
    by (simp add: report_instructions_def)
  have 2: "report_instructions Brief ''remote work'' ''en'' (Some [])
     \<noteq> report_instructions_template_format ''brief'' ''remote work'' ''en''
         @ ''# Other Instructions\<newline>\<newline>'' @ [] @ ''\<newline>\<newline>''"
    by (simp add: report_instructions_def)
  have "fst (start_run scripted_service ''remote work'' Context Brief ''en'' (Some []))
     = Inr (''agent_1'', ''thread_1'', example_run ''queued'')"
    by (simp add: start_run_def result_defs os_environ_def scripted_service_def
        split: prod.split)
  then obtain tr0 where
    s: "start_run scripted_service ''remote work'' Context Brief ''en'' (Some [])
        = (Inr (''agent_1'', ''thread_1'', example_run ''queued''), tr0)"
    by (metis prod.collapse)
  have 3: "filter is_messages_create
       (snd (start_run scripted_service ''remote work'' Context Brief ''en'' (Some [])))
     = [Call (MessagesCreate ''thread_1'' ''user''
          (report_instructions_template_format ''brief'' ''remote work'' ''en''))]"
    using start_run_posts [OF s] s 1 by simp
  show ?thesis by (rule conjI, rule 1, rule conjI, rule 2, rule 3)
qed

section \<open>Emission of the agent's messages over the loop\<close>






end
